theory Spec2Isabelle
  imports Main "HOL-Library.Word"
begin

unbundle bit_operations_syntax

section \<open>Cover extraction and playlist building of generate.py\<close>

text \<open>
  The script scans a folder of audio files, asks the mutagen library for the tags of each
  file, stores an embedded cover picture under \<open>covers/<md5 of the path><ext>\<close> and
  builds one playlist entry per file. The embedding below follows \<open>extract_cover\<close>
  (lines 29 to 79) and the data-building loop of \<open>main\<close> (lines 126 to 137).

  What lies outside the script is a parameter of the model: the objects mutagen returns,
  the errors the operating system reports when a cover file is opened or written, the
  file system before the run. \<open>hashlib.md5\<close> is written out, so that the key really is
  the digest the script computes.

  A path is the byte string of its UTF-8 encoding; \<open>print\<close> appends a line to the
  standard output and does not fail; an exception is an instance of Python's
  \<open>Exception\<close>, the class the handler of \<open>extract_cover\<close> catches.
\<close>

subsection \<open>Bytes and the MD5 digest (hashlib.md5, RFC 1321)\<close>

type_synonym byte = "8 word"
type_synonym u32 = "32 word"
type_synonym md5_state = "u32 \<times> u32 \<times> u32 \<times> u32"

definition md5_s :: "nat list" where
  "md5_s = [7, 12, 17, 22, 7, 12, 17, 22, 7, 12, 17, 22, 7, 12, 17, 22,
            5, 9, 14, 20, 5, 9, 14, 20, 5, 9, 14, 20, 5, 9, 14, 20,
            4, 11, 16, 23, 4, 11, 16, 23, 4, 11, 16, 23, 4, 11, 16, 23,
            6, 10, 15, 21, 6, 10, 15, 21, 6, 10, 15, 21, 6, 10, 15, 21]"

definition md5_K :: "u32 list" where
  "md5_K = [0xd76aa478, 0xe8c7b756, 0x242070db, 0xc1bdceee,
            0xf57c0faf, 0x4787c62a, 0xa8304613, 0xfd469501,
            0x698098d8, 0x8b44f7af, 0xffff5bb1, 0x895cd7be,
            0x6b901122, 0xfd987193, 0xa679438e, 0x49b40821,
            0xf61e2562, 0xc040b340, 0x265e5a51, 0xe9b6c7aa,
            0xd62f105d, 0x02441453, 0xd8a1e681, 0xe7d3fbc8,
            0x21e1cde6, 0xc33707d6, 0xf4d50d87, 0x455a14ed,
            0xa9e3e905, 0xfcefa3f8, 0x676f02d9, 0x8d2a4c8a,
            0xfffa3942, 0x8771f681, 0x6d9d6122, 0xfde5380c,
            0xa4beea44, 0x4bdecfa9, 0xf6bb4b60, 0xbebfbc70,
            0x289b7ec6, 0xeaa127fa, 0xd4ef3085, 0x04881d05,
            0xd9d4d039, 0xe6db99e5, 0x1fa27cf8, 0xc4ac5665,
            0xf4292244, 0x432aff97, 0xab9423a7, 0xfc93a039,
            0x655b59c3, 0x8f0ccc92, 0xffeff47d, 0x85845dd1,
            0x6fa87e4f, 0xfe2ce6e0, 0xa3014314, 0x4e0811a1,
            0xf7537e82, 0xbd3af235, 0x2ad7d2bb, 0xeb86d391]"

text \<open>\<open>le_bytes k n\<close>: the \<open>k\<close> low bytes of \<open>n\<close>, least significant first.\<close>

definition le_bytes :: "nat \<Rightarrow> nat \<Rightarrow> byte list" where
  "le_bytes k n = map (\<lambda>i. of_nat (n div 256 ^ i mod 256)) [0..<k]"

definition le_word :: "byte list \<Rightarrow> u32" where
  "le_word bs = foldr (\<lambda>b w. ucast b OR push_bit 8 w) bs 0"

text \<open>
  Padding: the byte 0x80, zero bytes up to 56 modulo 64, then the length of the message
  in bits as a 64-bit little-endian number.
\<close>

definition md5_pad :: "byte list \<Rightarrow> byte list" where
  "md5_pad m = m @ [0x80] @ replicate ((119 - length m mod 64) mod 64) 0
                 @ le_bytes 8 (8 * length m mod 2 ^ 64)"

function chunks :: "nat \<Rightarrow> 'a list \<Rightarrow> 'a list list" where
  "chunks n xs = (if n = 0 \<or> xs = [] then [] else take n xs # chunks n (drop n xs))"
  by pat_completeness auto
termination
  by (relation "measure (\<lambda>(n, xs). length xs)") auto

declare chunks.simps [simp del]

text \<open>Rotation to the left by \<open>n\<close> bits, \<open>0 < n < 32\<close>: \<open>(x << n) | (x >> (32 - n))\<close>.\<close>

definition rotl32 :: "nat \<Rightarrow> u32 \<Rightarrow> u32" where
  "rotl32 n x = push_bit n x OR drop_bit (32 - n) x"

definition md5_step :: "u32 list \<Rightarrow> md5_state \<Rightarrow> nat \<Rightarrow> md5_state" where
  "md5_step M st i =
     (case st of (A, B, C, D) \<Rightarrow>
        let (F, g) =
              (if i < 16 then ((B AND C) OR (NOT B AND D), i)
               else if i < 32 then ((D AND B) OR (NOT D AND C), (5 * i + 1) mod 16)
               else if i < 48 then (B XOR C XOR D, (3 * i + 5) mod 16)
               else (C XOR (B OR NOT D), (7 * i) mod 16));
            F' = F + A + md5_K ! i + M ! g
        in (D, B + rotl32 (md5_s ! i) F', B, C))"

definition md5_block :: "md5_state \<Rightarrow> byte list \<Rightarrow> md5_state" where
  "md5_block h blk =
     (case h of (a0, b0, c0, d0) \<Rightarrow>
        case foldl (md5_step (map le_word (chunks 4 blk))) h [0..<64] of
          (A, B, C, D) \<Rightarrow> (a0 + A, b0 + B, c0 + C, d0 + D))"

definition md5_digest :: "byte list \<Rightarrow> byte list" where
  "md5_digest m =
     (case foldl md5_block (0x67452301, 0xefcdab89, 0x98badcfe, 0x10325476)
             (chunks 64 (md5_pad m)) of
        (a, b, c, d) \<Rightarrow> concat (map (\<lambda>w. le_bytes 4 (unat w)) [a, b, c, d]))"

definition hex_digit :: "nat \<Rightarrow> char" where
  "hex_digit n = ''0123456789abcdef'' ! (n mod 16)"

definition hexdigest :: "byte list \<Rightarrow> string" where
  "hexdigest bs =
     concat (map (\<lambda>b. [hex_digit (unat b div 16), hex_digit (unat b mod 16)]) bs)"

text \<open>\<open>file_path.encode('utf-8')\<close>: a path is kept as its UTF-8 bytes already.\<close>

definition encode_utf8 :: "string \<Rightarrow> byte list" where
  "encode_utf8 s = map of_char s"

text \<open>Line 43: \<open>file_hash = hashlib.md5(file_path.encode('utf-8')).hexdigest()\<close>.\<close>

definition file_hash :: "string \<Rightarrow> string" where
  "file_hash file_path = hexdigest (md5_digest (encode_utf8 file_path))"

subsection \<open>Paths (os.path of a POSIX system)\<close>

definition join :: "string \<Rightarrow> string \<Rightarrow> string" where
  "join a b =
     (if b \<noteq> [] \<and> hd b = CHR ''/'' then b
      else if a = [] \<or> last a = CHR ''/'' then a @ b
      else a @ ''/'' @ b)"

definition basename :: "string \<Rightarrow> string" where
  "basename p = rev (takeWhile (\<lambda>c. c \<noteq> CHR ''/'') (rev p))"

text \<open>\<open>contains sub s\<close> is Python's \<open>sub in s\<close> on strings.\<close>

fun contains :: "string \<Rightarrow> string \<Rightarrow> bool" where
  "contains sub [] = (sub = [])"
| "contains sub (c # cs) = (take (length sub) (c # cs) = sub \<or> contains sub cs)"

subsection \<open>What mutagen returns\<close>

text \<open>
  An exception carries its message, the text \<open>str(e)\<close> that the handler prints.
\<close>

datatype exn = Exn string

text \<open>
  A value found in a tag container: the bytes of a picture (an \<open>MP4Cover\<close>, the
  \<open>data\<close> of an \<open>APIC\<close> frame) or a text (the values of a Vorbis comment).
  Both are false in a condition when empty.
\<close>

datatype pyval = Bytes "byte list" | Text string

fun truthy :: "pyval \<Rightarrow> bool" where
  "truthy (Bytes b) = (b \<noteq> [])"
| "truthy (Text s) = (s \<noteq> [])"

text \<open>
  The entries of \<open>audio.tags\<close>: an attached-picture frame of an ID3 tag with its
  \<open>mime\<close> and \<open>data\<close>, any other ID3 frame, or the list of values that an MP4 or
  Vorbis tag container keeps under a key.
\<close>

datatype tagval = APIC string "byte list" | Frame | Values "pyval list"

text \<open>
  \<open>audio.tags\<close> is a dictionary; \<open>is_ID3\<close> is \<open>isinstance(audio.tags, ID3)\<close> and
  \<open>items\<close> lists the entries in the order \<open>values()\<close> iterates them, which for a tag
  read from a file is the order of the frames in the file.
\<close>

record tags =
  is_ID3 :: bool
  items :: "(string \<times> tagval) list"

datatype audio = Audio "tags option"

text \<open>
  \<open>if not audio\<close>: \<open>File\<close> returned \<open>None\<close>, or a file object that is false. A
  mutagen file object is a dictionary view of its tags and has their length: it is
  false when the file has no tags at all and when the tag container is empty.
\<close>

fun audio_tags :: "audio option \<Rightarrow> tags option" where
  "audio_tags None = None"
| "audio_tags (Some (Audio None)) = None"
| "audio_tags (Some (Audio (Some t))) = (if items t = [] then None else Some t)"

subsection \<open>The environment and the state\<close>

text \<open>
  \<open>HAS_MUTAGEN\<close> is the flag set by the import at lines 17 to 24. \<open>File\<close> is
  \<open>mutagen.File\<close>: it raises, returns \<open>None\<close> for a file it does not recognise, or
  returns a file object. \<open>open_error p\<close> is the exception \<open>open(p, 'wb')\<close> raises, if
  any (then no file is created); \<open>write_error p\<close> is the exception raised when the
  bytes are written after the file was created (the file is then left empty).
\<close>

record env =
  HAS_MUTAGEN :: bool
  File :: "string \<Rightarrow> exn + audio option"
  open_error :: "string \<Rightarrow> exn option"
  write_error :: "string \<Rightarrow> exn option"

text \<open>The state: the files on disk by path, and the lines printed so far.\<close>

record world =
  files :: "string \<rightharpoonup> byte list"
  stdout :: "string list"

subsection \<open>extract_cover\<close>

definition COVERS_DIR :: string where
  "COVERS_DIR = ''covers''"

text \<open>Lines 55 to 60: the loop over \<open>audio.tags.values()\<close>, left at the first APIC.\<close>

fun first_APIC :: "tagval list \<Rightarrow> pyval option \<times> string" where
  "first_APIC [] = (None, '''')"
| "first_APIC (APIC mime data # _) =
     (Some (Bytes data), if contains ''png'' mime then ''.png'' else ''.jpg'')"
| "first_APIC (_ # ts) = first_APIC ts"

text \<open>
  Lines 44 to 60: \<open>image_data\<close> and \<open>ext\<close>. \<open>audio.tags['covr'][0]\<close> raises
  IndexError on an empty list and TypeError on a frame object.
\<close>

definition select_image :: "tags \<Rightarrow> exn + (pyval option \<times> string)" where
  "select_image t =
     (case map_of (items t) ''covr'' of
        Some (Values (x # _)) \<Rightarrow> Inr (Some x, ''.jpg'')
      | Some (Values []) \<Rightarrow> Inl (Exn ''list index out of range'')
      | Some _ \<Rightarrow> Inl (Exn ''object is not subscriptable'')
      | None \<Rightarrow>
          if is_ID3 t then Inr (first_APIC (map snd (items t))) else Inr (None, ''''))"

text \<open>
  Lines 70 and 71: \<open>with open(cover_path, 'wb') as f: f.write(image_data)\<close>. Opening
  creates the file empty; writing a text to a binary file raises TypeError.
\<close>

definition write_cover :: "env \<Rightarrow> string \<Rightarrow> pyval \<Rightarrow> world \<Rightarrow> exn option \<times> world" where
  "write_cover e cover_path image_data w =
     (case open_error e cover_path of
        Some x \<Rightarrow> (Some x, w)
      | None \<Rightarrow>
          (case image_data of
             Text _ \<Rightarrow>
               (Some (Exn ''a bytes-like object is required''),
                w\<lparr>files := (files w)(cover_path \<mapsto> [])\<rparr>)
           | Bytes b \<Rightarrow>
               (case write_error e cover_path of
                  Some x \<Rightarrow> (Some x, w\<lparr>files := (files w)(cover_path \<mapsto> [])\<rparr>)
                | None \<Rightarrow> (None, w\<lparr>files := (files w)(cover_path \<mapsto> b)\<rparr>))))"

text \<open>
  Lines 38 to 74, the body of the \<open>try\<close>: \<open>Inl\<close> is an exception that leaves the
  body, \<open>Inr\<close> the value of a \<open>return\<close> (or \<open>None\<close> when the body runs to its end).
\<close>

definition extract_cover_try ::
  "env \<Rightarrow> string \<Rightarrow> string \<Rightarrow> world \<Rightarrow> (exn + string option) \<times> world" where
  "extract_cover_try e file_path covers_dir_path w =
     (case File e file_path of
        Inl x \<Rightarrow> (Inl x, w)
      | Inr audio \<Rightarrow>
          (case audio_tags audio of
             None \<Rightarrow> (Inr None, w)
           | Some t \<Rightarrow>
               (case select_image t of
                  Inl x \<Rightarrow> (Inl x, w)
                | Inr (image_data, ext) \<Rightarrow>
                    (case image_data of
                       None \<Rightarrow> (Inr None, w)
                     | Some v \<Rightarrow>
                         if truthy v then
                           let cover_filename = file_hash file_path @ ext;
                               cover_path = join covers_dir_path cover_filename
                           in if files w cover_path = None then
                                (case write_cover e cover_path v w of
                                   (Some x, w') \<Rightarrow> (Inl x, w')
                                 | (None, w') \<Rightarrow>
                                     (Inr (Some (COVERS_DIR @ ''/'' @ cover_filename)), w'))
                              else (Inr (Some (COVERS_DIR @ ''/'' @ cover_filename)), w)
                         else (Inr None, w)))))"

text \<open>
  Lines 34 to 79: without mutagen the answer is \<open>None\<close> at once; an exception of the
  body is printed with the base name of the file and the answer is \<open>None\<close>.
\<close>

definition extract_cover :: "env \<Rightarrow> string \<Rightarrow> string \<Rightarrow> world \<Rightarrow> string option \<times> world" where
  "extract_cover e file_path covers_dir_path w =
     (if \<not> HAS_MUTAGEN e then (None, w)
      else
        (case extract_cover_try e file_path covers_dir_path w of
           (Inr r, w') \<Rightarrow> (r, w')
         | (Inl (Exn msg), w') \<Rightarrow>
             (None,
              w'\<lparr>stdout := stdout w' @
                   [''Cover extract error ('' @ basename file_path @ ''): '' @ msg]\<rparr>)))"

subsection \<open>The loop of main that builds the playlist\<close>

record playlist_record =
  name :: string
  url :: string
  cover :: "string option"

text \<open>
  Lines 126 to 137: \<open>playlist_data\<close> is the accumulator, \<open>files\<close> the list the loop
  runs over (the sorted listing of line 118).
\<close>

fun build_playlist ::
  "env \<Rightarrow> string \<Rightarrow> string \<Rightarrow> string list \<Rightarrow> world \<Rightarrow> playlist_record list
     \<Rightarrow> playlist_record list \<times> world" where
  "build_playlist e target_dir covers_path [] w playlist_data = (playlist_data, w)"
| "build_playlist e target_dir covers_path (f # fs) w playlist_data =
     (let full_path = join target_dir f;
          (cover_rel_path, w') = extract_cover e full_path covers_path w
      in build_playlist e target_dir covers_path fs w'
           (playlist_data @ [\<lparr>name = f, url = f, cover = cover_rel_path\<rparr>]))"

text \<open>Lines 111 and 126: the loop as \<open>main\<close> starts it.\<close>

definition playlist :: "env \<Rightarrow> string \<Rightarrow> string list \<Rightarrow> world \<Rightarrow> playlist_record list \<times> world" where
  "playlist e target_dir fs w =
     build_playlist e target_dir (join target_dir COVERS_DIR) fs w []"

subsection \<open>The picture a file offers\<close>

text \<open>
  Lines 38 to 64 read the file and the tags only, never the disk: \<open>chosen e file_path\<close>
  is the exception they raise, or the picture and extension they settle on when
  \<open>image_data\<close> is true, or \<open>None\<close> when extraction ends without a picture.
\<close>

definition chosen :: "env \<Rightarrow> string \<Rightarrow> exn + (pyval \<times> string) option" where
  "chosen e file_path =
     (case File e file_path of
        Inl x \<Rightarrow> Inl x
      | Inr audio \<Rightarrow>
          (case audio_tags audio of
             None \<Rightarrow> Inr None
           | Some t \<Rightarrow>
               (case select_image t of
                  Inl x \<Rightarrow> Inl x
                | Inr (None, ext) \<Rightarrow> Inr None
                | Inr (Some v, ext) \<Rightarrow> if truthy v then Inr (Some (v, ext)) else Inr None)))"

subsection \<open>Concrete files for the examples\<close>

text \<open>An empty disk, and a machine with mutagen on which no cover file fails to open or write.\<close>

definition fresh :: world where
  "fresh = \<lparr>files = Map.empty, stdout = []\<rparr>"

definition machine :: "(string \<Rightarrow> exn + audio option) \<Rightarrow> env" where
  "machine F = \<lparr>HAS_MUTAGEN = True, File = F, open_error = (\<lambda>p. None), write_error = (\<lambda>p. None)\<rparr>"

text \<open>A folder in which mutagen finds the tags \<open>t\<close> in the file \<open>p\<close> and recognises no other file.\<close>

definition only :: "string \<Rightarrow> tags \<Rightarrow> string \<Rightarrow> exn + audio option" where
  "only p t = (\<lambda>q. if q = p then Inr (Some (Audio (Some t))) else Inr None)"

definition jpeg_bytes :: "byte list" where
  "jpeg_bytes = [0xFF, 0xD8, 0xFF, 0xE0, 1, 2, 3]"

definition png_bytes :: "byte list" where
  "png_bytes = [0x89, 0x50, 0x4E, 0x47, 0x0D, 0x0A, 0x1A, 0x0A, 1, 2, 3]"


text \<open>An ID3 tag with a title frame and one attached picture.\<close>

definition id3_tags :: "string \<Rightarrow> byte list \<Rightarrow> tags" where
  "id3_tags mime b = \<lparr>is_ID3 = True, items = [(''TIT2'', Frame), (''APIC:'', APIC mime b)]\<rparr>"

text \<open>A folder \<open>music\<close> with \<open>b.mp3\<close>, which has no tags, and \<open>a.mp3\<close>, which has a JPEG cover.\<close>

definition two_songs :: env where
  "two_songs = machine (only ''music/a.mp3'' (id3_tags ''image/jpeg'' jpeg_bytes))"






text \<open>
  An Ogg Vorbis file whose comments hold an entry named \<open>covr\<close>: its values are
  texts, not pictures.
\<close>

definition vorbis_comment :: tags where
  "vorbis_comment =
     \<lparr>is_ID3 = False,
      items = [(''title'', Values [Text ''Song'']), (''covr'', Values [Text ''front.jpg''])]\<rparr>"

definition ogg_song :: env where
  "ogg_song = machine (only ''music/a.ogg'' vorbis_comment)"


section \<open>The cache key\<close>











section \<open>Paths and substrings\<close>

lemma basename_join:
  assumes "CHR ''/'' \<notin> set f"
  shows "basename (join d f) = f"
proof -
  have nohd: "\<not> (f \<noteq> [] \<and> hd f = CHR ''/'')"
    using assms by (cases f) auto
  have tw: "takeWhile (\<lambda>c. c \<noteq> CHR ''/'') (rev f @ ys) = rev f @ takeWhile (\<lambda>c. c \<noteq> CHR ''/'') ys" for ys
    using assms by (intro takeWhile_append2) auto
  show ?thesis
  proof (cases "d = [] \<or> last d = CHR ''/''")
    case True
    then have j: "join d f = d @ f" using nohd by (auto simp: join_def)
    have "takeWhile (\<lambda>c. c \<noteq> CHR ''/'') (rev d) = []"
      using True by (cases d rule: rev_cases) auto
    then show ?thesis by (simp add: basename_def j tw)
  next
    case False
    then have j: "join d f = d @ ''/'' @ f" using nohd by (auto simp: join_def)
    show ?thesis by (simp add: basename_def j tw)
  qed
qed

lemma take_length_eq_iff: "take (length sub) s = sub \<longleftrightarrow> (\<exists>v. s = sub @ v)"
proof
  assume "take (length sub) s = sub"
  then have "s = sub @ drop (length sub) s"
    by (metis append_take_drop_id)
  then show "\<exists>v. s = sub @ v" ..
next
  assume "\<exists>v. s = sub @ v"
  then show "take (length sub) s = sub" by auto
qed

lemma contains_iff: "contains sub s \<longleftrightarrow> (\<exists>u v. s = u @ sub @ v)"
proof (induction s)
  case Nil
  then show ?case by auto
next
  case (Cons c cs)
  have "(\<exists>u v. c # cs = u @ sub @ v) \<longleftrightarrow> (\<exists>v. c # cs = sub @ v) \<or> (\<exists>u v. cs = u @ sub @ v)"
  proof
    assume "\<exists>u v. c # cs = u @ sub @ v"
    then obtain u v where uv: "c # cs = u @ sub @ v" by blast
    show "(\<exists>v. c # cs = sub @ v) \<or> (\<exists>u v. cs = u @ sub @ v)"
    proof (cases u)
      case Nil
      with uv show ?thesis by auto
    next
      case (Cons a u')
      with uv have "cs = u' @ sub @ v" by simp
      then show ?thesis by blast
    qed
  next
    assume "(\<exists>v. c # cs = sub @ v) \<or> (\<exists>u v. cs = u @ sub @ v)"
    then show "\<exists>u v. c # cs = u @ sub @ v"
    proof
      assume "\<exists>v. c # cs = sub @ v"
      then obtain v where "c # cs = [] @ sub @ v" by auto
      then show ?thesis by blast
    next
      assume "\<exists>u v. cs = u @ sub @ v"
      then obtain u v where "c # cs = (c # u) @ sub @ v" by auto
      then show ?thesis by blast
    qed
  qed
  then show ?case
    using Cons.IH take_length_eq_iff [of sub "c # cs"] by simp
qed

section \<open>Which picture is chosen\<close>




lemma first_APIC_skip:
  assumes "\<forall>m' b'. APIC m' b' \<notin> set pre"
  shows "first_APIC (pre @ ts) = first_APIC ts"
  using assms
proof (induction pre)
  case Nil
  then show ?case by simp
next
  case (Cons x pre)
  then show ?case by (cases x) auto
qed

lemma chosen_first_APIC:
  assumes "File e p = Inr (Some (Audio (Some t)))"
    and "is_ID3 t"
    and "map_of (items t) ''covr'' = None"
    and "items t = pre @ (k, APIC m b) # post"
    and "\<forall>m' b'. APIC m' b' \<notin> snd ` set pre"
  shows "chosen e p =
     (if b = [] then Inr None
      else Inr (Some (Bytes b, if contains ''png'' m then ''.png'' else ''.jpg'')))"
proof -
  have "first_APIC (map snd (items t)) = first_APIC (APIC m b # map snd post)"
    using assms(5) by (simp add: assms(4) first_APIC_skip)
  then have "select_image t =
      Inr (Some (Bytes b), if contains ''png'' m then ''.png'' else ''.jpg'')"
    using assms(2,3) by (simp add: select_image_def)
  moreover have "audio_tags (Some (Audio (Some t))) = Some t"
    using assms(4) by simp
  ultimately show ?thesis
    using assms(1) by (simp add: chosen_def)
qed


section \<open>The shape of an extraction\<close>

lemma extract_cover_try_chosen:
  "extract_cover_try e p d w =
     (case chosen e p of
        Inl x \<Rightarrow> (Inl x, w)
      | Inr None \<Rightarrow> (Inr None, w)
      | Inr (Some (v, ext)) \<Rightarrow>
          if files w (join d (file_hash p @ ext)) = None then
            (case write_cover e (join d (file_hash p @ ext)) v w of
               (Some x, w') \<Rightarrow> (Inl x, w')
             | (None, w') \<Rightarrow> (Inr (Some (COVERS_DIR @ ''/'' @ file_hash p @ ext)), w'))
          else (Inr (Some (COVERS_DIR @ ''/'' @ file_hash p @ ext)), w))"
  by (simp add: extract_cover_try_def chosen_def Let_def
      split: sum.splits option.splits prod.splits)



lemma extract_cover_cached:
  assumes "HAS_MUTAGEN e" and "chosen e p = Inr (Some (v, ext))"
    and "files w (join d (file_hash p @ ext)) \<noteq> None"
  shows "extract_cover e p d w = (Some (COVERS_DIR @ ''/'' @ file_hash p @ ext), w)"
  using assms by (auto simp: extract_cover_def extract_cover_try_chosen)

lemma extract_cover_written:
  assumes "HAS_MUTAGEN e" and "chosen e p = Inr (Some (Bytes b, ext))"
    and "files w (join d (file_hash p @ ext)) = None"
    and "open_error e (join d (file_hash p @ ext)) = None"
    and "write_error e (join d (file_hash p @ ext)) = None"
  shows "extract_cover e p d w =
     (Some (COVERS_DIR @ ''/'' @ file_hash p @ ext),
      w\<lparr>files := (files w)(join d (file_hash p @ ext) \<mapsto> b)\<rparr>)"
  using assms by (simp add: extract_cover_def extract_cover_try_chosen write_cover_def)




lemma files_write_cover:
  "files (snd (write_cover e cp v w)) = files w \<or>
   (\<exists>c. files (snd (write_cover e cp v w)) = (files w)(cp \<mapsto> c))"
  by (auto simp: write_cover_def split: option.splits pyval.splits)


lemma extract_cover_chosen:
  "extract_cover e p d w =
     (if \<not> HAS_MUTAGEN e then (None, w)
      else
        (case chosen e p of
           Inl (Exn msg) \<Rightarrow>
             (None, w\<lparr>stdout := stdout w @ [''Cover extract error ('' @ basename p @ ''): '' @ msg]\<rparr>)
         | Inr None \<Rightarrow> (None, w)
         | Inr (Some (v, ext)) \<Rightarrow>
             if files w (join d (file_hash p @ ext)) = None then
               (case fst (write_cover e (join d (file_hash p @ ext)) v w) of
                  None \<Rightarrow>
                    (Some (COVERS_DIR @ ''/'' @ file_hash p @ ext),
                     snd (write_cover e (join d (file_hash p @ ext)) v w))
                | Some (Exn msg) \<Rightarrow>
                    (None,
                     (snd (write_cover e (join d (file_hash p @ ext)) v w))
                       \<lparr>stdout := stdout (snd (write_cover e (join d (file_hash p @ ext)) v w)) @
                          [''Cover extract error ('' @ basename p @ ''): '' @ msg]\<rparr>))
             else (Some (COVERS_DIR @ ''/'' @ file_hash p @ ext), w)))"
  by (simp add: extract_cover_def extract_cover_try_chosen split_beta
      split: sum.splits option.splits exn.splits)


section \<open>The loop\<close>

lemma build_playlist_acc:
  "build_playlist e td cp fs w acc =
     (acc @ fst (build_playlist e td cp fs w []), snd (build_playlist e td cp fs w []))"
proof (induction fs arbitrary: w acc)
  case Nil
  then show ?case by simp
next
  case (Cons f fs)
  obtain c w' where x: "extract_cover e (join td f) cp w = (c, w')"
    by (cases "extract_cover e (join td f) cp w")
  show ?case
    using Cons.IH [of w' "acc @ [\<lparr>name = f, url = f, cover = c\<rparr>]"]
      Cons.IH [of w' "[\<lparr>name = f, url = f, cover = c\<rparr>]"]
    by (simp add: x)
qed

lemma build_playlist_Cons:
  "build_playlist e td cp (f # fs) w [] =
     (\<lparr>name = f, url = f, cover = fst (extract_cover e (join td f) cp w)\<rparr>
        # fst (build_playlist e td cp fs (snd (extract_cover e (join td f) cp w)) []),
      snd (build_playlist e td cp fs (snd (extract_cover e (join td f) cp w)) []))"
  using build_playlist_acc [of e td cp fs "snd (extract_cover e (join td f) cp w)"
      "[\<lparr>name = f, url = f, cover = fst (extract_cover e (join td f) cp w)\<rparr>]"]
  by (simp add: split_beta Let_def)

lemma build_playlist_append:
  "build_playlist e td cp (xs @ ys) w [] =
     (fst (build_playlist e td cp xs w [])
        @ fst (build_playlist e td cp ys (snd (build_playlist e td cp xs w [])) []),
      snd (build_playlist e td cp ys (snd (build_playlist e td cp xs w [])) []))"
proof (induction xs arbitrary: w)
  case Nil
  then show ?case by simp
next
  case (Cons x xs)
  show ?case
    by (simp only: append_Cons build_playlist_Cons Cons.IH fst_conv snd_conv)
qed

lemma length_build_playlist: "length (fst (build_playlist e td cp fs w [])) = length fs"
proof (induction fs arbitrary: w)
  case Nil
  then show ?case by simp
next
  case (Cons f fs)
  then show ?case by (simp only: build_playlist_Cons fst_conv length_Cons)
qed

lemma names_build_playlist: "map name (fst (build_playlist e td cp fs w [])) = fs"
proof (induction fs arbitrary: w)
  case Nil
  then show ?case by simp
next
  case (Cons f fs)
  then show ?case by (simp add: build_playlist_Cons del: build_playlist.simps)
qed

lemma urls_build_playlist: "map url (fst (build_playlist e td cp fs w [])) = fs"
proof (induction fs arbitrary: w)
  case Nil
  then show ?case by simp
next
  case (Cons f fs)
  then show ?case by (simp add: build_playlist_Cons del: build_playlist.simps)
qed

lemma nth_build_playlist:
  assumes "i < length fs"
  shows "fst (build_playlist e td cp fs w []) ! i =
     \<lparr>name = fs ! i, url = fs ! i,
      cover = fst (extract_cover e (join td (fs ! i)) cp
                (snd (build_playlist e td cp (take i fs) w [])))\<rparr>"
proof -
  have fs: "fs = take i fs @ (fs ! i) # drop (Suc i) fs"
    using assms by (simp add: id_take_nth_drop)
  have l: "length (fst (build_playlist e td cp (take i fs) w [])) = i"
    using assms by (simp add: length_build_playlist del: build_playlist.simps)
  have "fst (build_playlist e td cp fs w []) ! i =
        fst (build_playlist e td cp (take i fs @ (fs ! i) # drop (Suc i) fs) w []) ! i"
    using fs by simp
  also have "\<dots> = \<lparr>name = fs ! i, url = fs ! i,
      cover = fst (extract_cover e (join td (fs ! i)) cp
                (snd (build_playlist e td cp (take i fs) w [])))\<rparr>"
    by (simp only: build_playlist_append build_playlist_Cons fst_conv)
       (simp add: nth_append l del: build_playlist.simps)
  finally show ?thesis .
qed


section \<open>One file does not disturb another\<close>







section \<open>A second run\<close>

lemma extract_cover_twice:
  assumes "fst (extract_cover e p d w) = Some r"
  shows "extract_cover e p d (snd (extract_cover e p d w)) = (Some r, snd (extract_cover e p d w))"
proof -
  have m: "HAS_MUTAGEN e"
    using assms by (auto simp: extract_cover_def split: if_splits)
  obtain v ext where c: "chosen e p = Inr (Some (v, ext))"
    using assms m
    by (auto simp: extract_cover_chosen split: sum.splits option.splits exn.splits)
  have r: "r = COVERS_DIR @ ''/'' @ file_hash p @ ext"
    using assms m c
    by (auto simp: extract_cover_chosen split: option.splits exn.splits if_splits)
  have "files (snd (extract_cover e p d w)) (join d (file_hash p @ ext)) \<noteq> None"
    using assms m c
    by (auto simp: extract_cover_chosen write_cover_def
        split: option.splits exn.splits if_splits pyval.splits)
  then show ?thesis
    using extract_cover_cached [OF m c] r by simp
qed

lemma dom_write_cover: "dom (files w) \<subseteq> dom (files (snd (write_cover e cp v w)))"
  using files_write_cover [of e cp v w] by auto

lemma dom_extract_cover: "dom (files w) \<subseteq> dom (files (snd (extract_cover e p d w)))"
  using dom_write_cover
  by (simp add: extract_cover_chosen split: sum.splits option.splits exn.splits prod.splits)

lemma dom_build_playlist:
  "dom (files w) \<subseteq> dom (files (snd (build_playlist e td cp fs w [])))"
proof (induction fs arbitrary: w)
  case Nil
  then show ?case by simp
next
  case (Cons f fs)
  have "dom (files w) \<subseteq> dom (files (snd (extract_cover e (join td f) cp w)))"
    by (rule dom_extract_cover)
  also have "\<dots> \<subseteq> dom (files (snd (build_playlist e td cp fs (snd (extract_cover e (join td f) cp w)) [])))"
    by (rule Cons.IH)
  finally show ?case
    by (simp only: build_playlist_Cons snd_conv)
qed

lemma blocked_write_cover:
  "open_error e c \<noteq> None \<Longrightarrow> files (snd (write_cover e cp v w)) c = files w c"
  by (auto simp: write_cover_def split: option.splits pyval.splits)

lemma blocked_extract_cover:
  "open_error e c \<noteq> None \<Longrightarrow> files (snd (extract_cover e p d w)) c = files w c"
  by (simp add: extract_cover_chosen blocked_write_cover
      split: sum.splits option.splits exn.splits prod.splits)

lemma blocked_build_playlist:
  "open_error e c \<noteq> None \<Longrightarrow> files (snd (build_playlist e td cp fs w [])) c = files w c"
proof (induction fs arbitrary: w)
  case Nil
  then show ?case by simp
next
  case (Cons f fs)
  then show ?case
    by (simp only: build_playlist_Cons snd_conv) (simp add: blocked_extract_cover)
qed

lemma chosen_cases:
  obtains (plain) "\<And>w'. files (snd (extract_cover e p d w')) = files w'"
      "\<And>w'. fst (extract_cover e p d w') = None"
    | (picture) v ext where "HAS_MUTAGEN e" "chosen e p = Inr (Some (v, ext))"
proof (cases "HAS_MUTAGEN e")
  case False
  then show ?thesis by (intro plain) (simp_all add: extract_cover_def)
next
  case m: True
  show ?thesis
  proof (cases "chosen e p")
    case (Inl x)
    then show ?thesis
      by (cases x) (intro plain; simp add: extract_cover_chosen m)
  next
    case (Inr r)
    show ?thesis
    proof (cases r)
      case None
      then show ?thesis
        using Inr by (intro plain) (simp_all add: extract_cover_chosen)
    next
      case (Some a)
      then show ?thesis
        using Inr m by (cases a) (auto intro: picture)
    qed
  qed
qed

lemma replay_step_quiet:
  assumes "dom (files (snd (extract_cover e p d w))) \<subseteq> dom (files w2)"
  shows "files (snd (extract_cover e p d w2)) = files w2"
proof (cases rule: chosen_cases [of e p d])
  case plain
  then show ?thesis by simp
next
  case (picture v ext)
  let ?cp = "join d (file_hash p @ ext)"
  show ?thesis
  proof (cases "files w2 ?cp = None")
    case False
    then show ?thesis
      using extract_cover_cached [OF picture] by simp
  next
    case True
    then have "?cp \<notin> dom (files (snd (extract_cover e p d w)))"
      using assms by auto
    then have "files (snd (extract_cover e p d w)) ?cp = None"
      by auto
    then have "open_error e ?cp \<noteq> None"
      using picture
      by (auto simp: extract_cover_chosen write_cover_def
          split: if_splits option.splits pyval.splits exn.splits)
    then show ?thesis
      using picture True
      by (auto simp: extract_cover_chosen write_cover_def split: exn.splits)
  qed
qed

lemma replay_step_same:
  assumes "dom (files (snd (extract_cover e p d w))) \<subseteq> dom (files w2)"
    and "\<forall>c. open_error e c \<noteq> None \<and> files w c = None \<longrightarrow> files w2 c = None"
    and "\<forall>v ext. chosen e p = Inr (Some (v, ext)) \<longrightarrow>
           (\<exists>b. v = Bytes b) \<and> write_error e (join d (file_hash p @ ext)) = None"
  shows "fst (extract_cover e p d w2) = fst (extract_cover e p d w)"
proof (cases rule: chosen_cases [of e p d])
  case plain
  then show ?thesis by simp
next
  case (picture v ext)
  let ?cp = "join d (file_hash p @ ext)"
  let ?ref = "COVERS_DIR @ ''/'' @ file_hash p @ ext"
  obtain b where v: "v = Bytes b" and we: "write_error e ?cp = None"
    using assms(3) picture(2) by blast
  have c: "chosen e p = Inr (Some (Bytes b, ext))"
    using picture(2) v by simp
  show ?thesis
  proof (cases "files w ?cp = None \<and> open_error e ?cp \<noteq> None")
    case True
    then have "files w2 ?cp = None"
      using assms(2) by blast
    then show ?thesis
      using True picture(1) c
      by (auto simp: extract_cover_chosen write_cover_def split: exn.splits)
  next
    case False
    have 1: "fst (extract_cover e p d w) = Some ?ref"
      and "files (snd (extract_cover e p d w)) ?cp \<noteq> None"
      using False picture(1) c we
      by (auto simp: extract_cover_chosen write_cover_def split: exn.splits)
    then have "files w2 ?cp \<noteq> None"
      using assms(1) by auto
    then have "fst (extract_cover e p d w2) = Some ?ref"
      using extract_cover_cached [OF picture(1) c] by simp
    with 1 show ?thesis by simp
  qed
qed

lemma replay_quiet:
  assumes "dom (files (snd (build_playlist e td cp fs w []))) \<subseteq> dom (files w2)"
  shows "files (snd (build_playlist e td cp fs w2 [])) = files w2"
  using assms
proof (induction fs arbitrary: w w2)
  case Nil
  then show ?case by simp
next
  case (Cons f fs)
  let ?w' = "snd (extract_cover e (join td f) cp w)"
  let ?w2' = "snd (extract_cover e (join td f) cp w2)"
  have final: "dom (files (snd (build_playlist e td cp fs ?w' []))) \<subseteq> dom (files w2)"
    using Cons.prems by (simp only: build_playlist_Cons snd_conv)
  have "dom (files ?w') \<subseteq> dom (files w2)"
    using dom_build_playlist [of ?w' e td cp fs] final by blast
  then have q: "files ?w2' = files w2"
    by (rule replay_step_quiet)
  have "files (snd (build_playlist e td cp fs ?w2' [])) = files ?w2'"
    using final q by (intro Cons.IH [of ?w']) simp
  then show ?case
    using q by (simp only: build_playlist_Cons snd_conv)
qed

lemma replay_same:
  assumes "dom (files (snd (build_playlist e td cp fs w []))) \<subseteq> dom (files w2)"
    and "\<forall>c. open_error e c \<noteq> None \<and> files w c = None \<longrightarrow> files w2 c = None"
    and "\<forall>f\<in>set fs. \<forall>v ext. chosen e (join td f) = Inr (Some (v, ext)) \<longrightarrow>
           (\<exists>b. v = Bytes b) \<and> write_error e (join cp (file_hash (join td f) @ ext)) = None"
  shows "fst (build_playlist e td cp fs w2 []) = fst (build_playlist e td cp fs w [])"
  using assms
proof (induction fs arbitrary: w w2)
  case Nil
  then show ?case by simp
next
  case (Cons f fs)
  let ?w' = "snd (extract_cover e (join td f) cp w)"
  let ?w2' = "snd (extract_cover e (join td f) cp w2)"
  have final: "dom (files (snd (build_playlist e td cp fs ?w' []))) \<subseteq> dom (files w2)"
    using Cons.prems(1) by (simp only: build_playlist_Cons snd_conv)
  have d: "dom (files ?w') \<subseteq> dom (files w2)"
    using dom_build_playlist [of ?w' e td cp fs] final by blast
  have q: "files ?w2' = files w2"
    using d by (rule replay_step_quiet)
  have sound: "\<forall>v ext. chosen e (join td f) = Inr (Some (v, ext)) \<longrightarrow>
      (\<exists>b. v = Bytes b) \<and> write_error e (join cp (file_hash (join td f) @ ext)) = None"
    using Cons.prems(3) by simp
  have h: "fst (extract_cover e (join td f) cp w2) = fst (extract_cover e (join td f) cp w)"
    using d Cons.prems(2) sound by (rule replay_step_same)
  have b: "\<forall>c. open_error e c \<noteq> None \<and> files ?w' c = None \<longrightarrow> files ?w2' c = None"
  proof (intro allI impI)
    fix c assume c: "open_error e c \<noteq> None \<and> files ?w' c = None"
    then have "files w c = None"
      using dom_extract_cover [of w e "join td f" cp] by auto
    then have "files w2 c = None"
      using c Cons.prems(2) by blast
    then show "files ?w2' c = None"
      using q by simp
  qed
  have r: "\<forall>g\<in>set fs. \<forall>v ext. chosen e (join td g) = Inr (Some (v, ext)) \<longrightarrow>
      (\<exists>b. v = Bytes b) \<and> write_error e (join cp (file_hash (join td g) @ ext)) = None"
    using Cons.prems(3) by simp
  have "fst (build_playlist e td cp fs ?w2' []) = fst (build_playlist e td cp fs ?w' [])"
    using final q b r by (intro Cons.IH) simp_all
  then show ?case
    using h by (simp only: build_playlist_Cons fst_conv)
qed

text \<open>
  With the environment fixed, a second run over the same list writes nothing: whatever the
  first run left on the disk stays as it is. Its records are those of the first run when
  no write failed after the cover file had been opened, that is, when every picture is a
  byte string and is written without error.
\<close>

lemma second_run_keeps_disk:
  "files (snd (playlist e td fs (snd (playlist e td fs w)))) = files (snd (playlist e td fs w))"
  unfolding playlist_def by (rule replay_quiet [of e td _ fs w]) simp

lemma second_run_same_records:
  assumes "\<forall>f\<in>set fs. \<forall>v ext. chosen e (join td f) = Inr (Some (v, ext)) \<longrightarrow>
      (\<exists>b. v = Bytes b) \<and>
      write_error e (join (join td COVERS_DIR) (file_hash (join td f) @ ext)) = None"
  shows "fst (playlist e td fs (snd (playlist e td fs w))) = fst (playlist e td fs w)"
  unfolding playlist_def
proof (rule replay_same)
  show "dom (files (snd (build_playlist e td (join td COVERS_DIR) fs w [])))
      \<subseteq> dom (files (snd (build_playlist e td (join td COVERS_DIR) fs w [])))"
    by simp
  show "\<forall>c. open_error e c \<noteq> None \<and> files w c = None \<longrightarrow>
      files (snd (build_playlist e td (join td COVERS_DIR) fs w [])) c = None"
    by (simp add: blocked_build_playlist)
  show "\<forall>f\<in>set fs. \<forall>v ext. chosen e (join td f) = Inr (Some (v, ext)) \<longrightarrow>
      (\<exists>b. v = Bytes b) \<and>
      write_error e (join (join td COVERS_DIR) (file_hash (join td f) @ ext)) = None"
    by (rule assms)
qed

section \<open>The digest of some paths, computed\<close>

text \<open>
  The rounds are evaluated sixteen at a time. The digest of the empty string is the first
  test vector of RFC 1321.
\<close>

lemma replicate_num: "replicate (numeral k) x = x # replicate (pred_numeral k) x"
  by (simp add: numeral_eq_Suc)

lemma upt_0_64: "[0..<64] = [0..<16] @ [16..<32] @ [32..<48] @ [48..<64]"
proof -
  have "[0..<16 + 16] = [0..<16] @ [16..<16 + 16]"
    and "[0..<32 + 16] = [0..<32] @ [32..<32 + 16]"
    and "[0..<48 + 16] = [0..<48] @ [48..<48 + 16]"
    by (rule upt_add_eq_append; simp)+
  then show ?thesis by simp
qed



















lemma md5_blocks_ogg:
  "chunks 64 (md5_pad (encode_utf8 ''music/a.ogg'')) =
     [[109, 117, 115, 105, 99, 47, 97, 46, 111, 103, 103, 128] @ replicate 44 0 @ [88, 0, 0, 0, 0, 0, 0, 0]]"
  by (simp add: md5_pad_def encode_utf8_def le_bytes_def upt_rec chunks.simps)

lemma md5_words_ogg:
  "map le_word (chunks 4
     ([109, 117, 115, 105, 99, 47, 97, 46, 111, 103, 103, 128] @ replicate 44 0 @ [88, 0, 0, 0, 0, 0, 0, 0])) =
     [1769174381, 778121059, 2154260335, 0, 0, 0, 0, 0, 0, 0, 0, 0, 0, 0, 88, 0]"
  by (simp add: chunks.simps le_word_def replicate_num)

lemma md5_rounds_ogg_1:
  "foldl (md5_step
     [1769174381, 778121059, 2154260335, 0, 0, 0, 0, 0, 0, 0, 0, 0, 0, 0, 88, 0])
     (1732584193, 4023233417, 2562383102, 271733878) [0..<16] =
     (1235593450, 1246635997, 2564442659, 699566617)"
  by (simp add: upt_rec md5_step_def md5_K_def md5_s_def rotl32_def)

lemma md5_rounds_ogg_2:
  "foldl (md5_step
     [1769174381, 778121059, 2154260335, 0, 0, 0, 0, 0, 0, 0, 0, 0, 0, 0, 88, 0])
     (1235593450, 1246635997, 2564442659, 699566617) [16..<32] =
     (669013359, 2490686225, 183548827, 3625203812)"
  by (simp add: upt_rec md5_step_def md5_K_def md5_s_def rotl32_def)

lemma md5_rounds_ogg_3:
  "foldl (md5_step
     [1769174381, 778121059, 2154260335, 0, 0, 0, 0, 0, 0, 0, 0, 0, 0, 0, 88, 0])
     (669013359, 2490686225, 183548827, 3625203812) [32..<48] =
     (2715335603, 4171252086, 3559119114, 1506180273)"
  by (simp add: upt_rec md5_step_def md5_K_def md5_s_def rotl32_def)

lemma md5_rounds_ogg_4:
  "foldl (md5_step
     [1769174381, 778121059, 2154260335, 0, 0, 0, 0, 0, 0, 0, 0, 0, 0, 0, 88, 0])
     (2715335603, 4171252086, 3559119114, 1506180273) [48..<64] =
     (3771448558, 3037163970, 2659188369, 3453129209)"
  by (simp add: upt_rec md5_step_def md5_K_def md5_s_def rotl32_def)

lemma md5_rounds_ogg:
  "foldl (md5_step
     [1769174381, 778121059, 2154260335, 0, 0, 0, 0, 0, 0, 0, 0, 0, 0, 0, 88, 0])
     (1732584193, 4023233417, 2562383102, 271733878) [0..<64] =
     (3771448558, 3037163970, 2659188369, 3453129209)"
  unfolding upt_0_64
  by (simp only: foldl_append md5_rounds_ogg_1 md5_rounds_ogg_2 md5_rounds_ogg_3
      md5_rounds_ogg_4)

lemma md5_digest_ogg:
  "md5_digest (encode_utf8 ''music/a.ogg'') =
     [239, 223, 16, 72, 75, 29, 213, 164, 143, 219, 58, 55, 111, 230, 4, 222]"
  unfolding md5_digest_def md5_blocks_ogg
  by (simp only: foldl_Cons foldl_Nil md5_block_def md5_words_ogg md5_rounds_ogg
      prod.case)
     (simp add: le_bytes_def upt_rec)

lemma file_hash_ogg: "file_hash ''music/a.ogg'' = ''efdf10484b1dd5a48fdb3a376fe604de''"
  by (simp add: file_hash_def md5_digest_ogg hexdigest_def hex_digit_def)

lemma md5_blocks_empty:
  "chunks 64 (md5_pad (encode_utf8 '''')) =
     [[128] @ replicate 55 0 @ [0, 0, 0, 0, 0, 0, 0, 0]]"
  by (simp add: md5_pad_def encode_utf8_def le_bytes_def upt_rec chunks.simps)

lemma md5_words_empty:
  "map le_word (chunks 4
     ([128] @ replicate 55 0 @ [0, 0, 0, 0, 0, 0, 0, 0])) =
     [128, 0, 0, 0, 0, 0, 0, 0, 0, 0, 0, 0, 0, 0, 0, 0]"
  by (simp add: chunks.simps le_word_def replicate_num)

lemma md5_rounds_empty_1:
  "foldl (md5_step
     [128, 0, 0, 0, 0, 0, 0, 0, 0, 0, 0, 0, 0, 0, 0, 0])
     (1732584193, 4023233417, 2562383102, 271733878) [0..<16] =
     (4117527793, 3598818410, 1520779125, 927548327)"
  by (simp add: upt_rec md5_step_def md5_K_def md5_s_def rotl32_def)

lemma md5_rounds_empty_2:
  "foldl (md5_step
     [128, 0, 0, 0, 0, 0, 0, 0, 0, 0, 0, 0, 0, 0, 0, 0])
     (4117527793, 3598818410, 1520779125, 927548327) [16..<32] =
     (326135862, 2720030495, 473023364, 2927104987)"
  by (simp add: upt_rec md5_step_def md5_K_def md5_s_def rotl32_def)

lemma md5_rounds_empty_3:
  "foldl (md5_step
     [128, 0, 0, 0, 0, 0, 0, 0, 0, 0, 0, 0, 0, 0, 0, 0])
     (326135862, 2720030495, 473023364, 2927104987) [32..<48] =
     (1062596093, 3397201341, 1759006370, 581115732)"
  by (simp add: upt_rec md5_step_def md5_K_def md5_s_def rotl32_def)

lemma md5_rounds_empty_4:
  "foldl (md5_step
     [128, 0, 0, 0, 0, 0, 0, 0, 0, 0, 0, 0, 0, 0, 0, 0])
     (1062596093, 3397201341, 1759006370, 581115732) [48..<64] =
     (1917254355, 350508294, 4283343851, 1846584438)"
  by (simp add: upt_rec md5_step_def md5_K_def md5_s_def rotl32_def)

lemma md5_rounds_empty:
  "foldl (md5_step
     [128, 0, 0, 0, 0, 0, 0, 0, 0, 0, 0, 0, 0, 0, 0, 0])
     (1732584193, 4023233417, 2562383102, 271733878) [0..<64] =
     (1917254355, 350508294, 4283343851, 1846584438)"
  unfolding upt_0_64
  by (simp only: foldl_append md5_rounds_empty_1 md5_rounds_empty_2 md5_rounds_empty_3
      md5_rounds_empty_4)

lemma md5_digest_empty:
  "md5_digest (encode_utf8 '''') =
     [212, 29, 140, 217, 143, 0, 178, 4, 233, 128, 9, 152, 236, 248, 66, 126]"
  unfolding md5_digest_def md5_blocks_empty
  by (simp only: foldl_Cons foldl_Nil md5_block_def md5_words_empty md5_rounds_empty
      prod.case)
     (simp add: le_bytes_def upt_rec)

lemma file_hash_empty: "file_hash '''' = ''d41d8cd98f00b204e9800998ecf8427e''"
  by (simp add: file_hash_def md5_digest_empty hexdigest_def hex_digit_def)










section \<open>Evaluating the examples\<close>

lemma machine_sel:
  "HAS_MUTAGEN (machine F)" "File (machine F) = F"
  "open_error (machine F) q = None" "write_error (machine F) q = None"
  by (simp_all add: machine_def)

lemma fresh_sel: "files fresh q = None" "stdout fresh = []"
  by (simp_all add: fresh_def)


lemma chosen_only_id3:
  "b \<noteq> [] \<Longrightarrow> chosen (machine (only p (id3_tags m b))) p =
     Inr (Some (Bytes b, if contains ''png'' m then ''.png'' else ''.jpg''))"
  by (simp add: chosen_def machine_sel only_def id3_tags_def select_image_def)

lemma chosen_only_other: "q \<noteq> p \<Longrightarrow> chosen (machine (only p t)) q = Inr None"
  by (simp add: chosen_def machine_sel only_def)

lemma two_songs_sel:
  "HAS_MUTAGEN two_songs" "open_error two_songs q = None" "write_error two_songs q = None"
  by (simp_all add: two_songs_def machine_sel)

lemma two_songs_b:
  "extract_cover two_songs ''music/b.mp3'' d w = (None, w)"
  by (simp add: two_songs_def extract_cover_def extract_cover_try_chosen chosen_only_other
      machine_sel)

lemma two_songs_a:
  "fst (extract_cover two_songs ''music/a.mp3'' d fresh) =
     Some (''covers/'' @ file_hash ''music/a.mp3'' @ ''.jpg'')"
proof -
  have c: "chosen two_songs ''music/a.mp3'' = Inr (Some (Bytes jpeg_bytes, ''.jpg''))"
    unfolding two_songs_def by (subst chosen_only_id3) (simp_all add: jpeg_bytes_def)
  show ?thesis
    by (simp add: extract_cover_def extract_cover_try_chosen c write_cover_def
        two_songs_sel fresh_sel COVERS_DIR_def)
qed

lemma join_music: "join ''music'' ''b.mp3'' = ''music/b.mp3''" "join ''music'' ''a.mp3'' = ''music/a.mp3''"
  by (simp_all add: join_def)



lemma file_only: "File (machine (only p t)) p = Inr (Some (Audio (Some t)))"
  by (simp add: machine_sel only_def)

lemma extract_x_png:
  "fst (extract_cover (machine (only ''music/a.mp3'' (id3_tags ''image/x-png'' png_bytes)))
      ''music/a.mp3'' ''music/covers'' fresh)
     = Some (''covers/'' @ file_hash ''music/a.mp3'' @ ''.png'')"
proof -
  have c: "chosen (machine (only ''music/a.mp3'' (id3_tags ''image/x-png'' png_bytes)))
      ''music/a.mp3'' = Inr (Some (Bytes png_bytes, ''.png''))"
    by (subst chosen_only_id3) (simp_all add: png_bytes_def)
  show ?thesis
    using extract_cover_written [OF machine_sel(1) c fresh_sel(1) machine_sel(3) machine_sel(4)]
    by (simp add: COVERS_DIR_def)
qed





lemma join_covers: "join ''music'' COVERS_DIR = ''music/covers''"
  by (simp add: join_def COVERS_DIR_def)



lemma ogg_song_sel:
  "HAS_MUTAGEN ogg_song" "open_error ogg_song q = None" "write_error ogg_song q = None"
  by (simp_all add: ogg_song_def machine_sel)

lemma chosen_ogg_song: "chosen ogg_song ''music/a.ogg'' = Inr (Some (Text ''front.jpg'', ''.jpg''))"
  by (simp add: chosen_def ogg_song_def machine_sel only_def vorbis_comment_def select_image_def)

lemma join_ogg: "join ''music'' ''a.ogg'' = ''music/a.ogg''"
  by (simp add: join_def)

lemma ogg_first_run:
  "extract_cover ogg_song ''music/a.ogg'' ''music/covers'' fresh =
     (None,
      \<lparr>files = [''music/covers/efdf10484b1dd5a48fdb3a376fe604de.jpg'' \<mapsto> []],
       stdout = [''Cover extract error (a.ogg): a bytes-like object is required'']\<rparr>)"
  by (simp add: extract_cover_chosen chosen_ogg_song file_hash_ogg join_def write_cover_def
      ogg_song_sel basename_def fresh_def)

lemma ogg_second_run:
  "fst (extract_cover ogg_song ''music/a.ogg'' ''music/covers''
     \<lparr>files = [''music/covers/efdf10484b1dd5a48fdb3a376fe604de.jpg'' \<mapsto> []],
      stdout = [''Cover extract error (a.ogg): a bytes-like object is required'']\<rparr>) =
     Some ''covers/efdf10484b1dd5a48fdb3a376fe604de.jpg''"
  by (simp add: extract_cover_chosen chosen_ogg_song file_hash_ogg join_def
      ogg_song_sel COVERS_DIR_def)



section \<open>The claims\<close>

subsection \<open>One failing file in a batch\<close>



subsection \<open>The extension of an MP4 cover\<close>




subsection \<open>The records of a second run\<close>

text \<open>
  C3. A second run over the same files should give the same records as the first, and
  write nothing. It writes nothing indeed (\<open>second_run_keeps_disk\<close>), and the records
  agree as long as no write has failed (\<open>second_run_same_records\<close>). They do not
  agree when a cover file was created and the write into it failed: line 70 has created
  the file before line 71 raises, nothing removes it, and the next run takes the file for
  an extracted cover (line 69). Here the \<open>covr\<close> entry of an Ogg Vorbis file is a text:
  the first run reports no cover and leaves an empty file, the second run returns that
  file as the cover.
\<close>

theorem second_run_differs_after_failed_write:
  "fst (playlist ogg_song ''music'' [''a.ogg''] fresh)
     = [\<lparr>name = ''a.ogg'', url = ''a.ogg'', cover = None\<rparr>] \<and>
   files (snd (playlist ogg_song ''music'' [''a.ogg''] fresh))
       ''music/covers/efdf10484b1dd5a48fdb3a376fe604de.jpg'' = Some [] \<and>
   fst (playlist ogg_song ''music'' [''a.ogg''] (snd (playlist ogg_song ''music'' [''a.ogg''] fresh)))
     = [\<lparr>name = ''a.ogg'', url = ''a.ogg'',
         cover = Some ''covers/efdf10484b1dd5a48fdb3a376fe604de.jpg''\<rparr>]"
proof -
  have 1: "playlist ogg_song ''music'' [''a.ogg''] fresh =
     ([\<lparr>name = ''a.ogg'', url = ''a.ogg'', cover = None\<rparr>],
      \<lparr>files = [''music/covers/efdf10484b1dd5a48fdb3a376fe604de.jpg'' \<mapsto> []],
       stdout = [''Cover extract error (a.ogg): a bytes-like object is required'']\<rparr>)"
    by (simp add: playlist_def join_ogg join_covers ogg_first_run)
  have 2: "fst (playlist ogg_song ''music'' [''a.ogg'']
       \<lparr>files = [''music/covers/efdf10484b1dd5a48fdb3a376fe604de.jpg'' \<mapsto> []],
        stdout = [''Cover extract error (a.ogg): a bytes-like object is required'']\<rparr>)
     = [\<lparr>name = ''a.ogg'', url = ''a.ogg'',
         cover = Some ''covers/efdf10484b1dd5a48fdb3a376fe604de.jpg''\<rparr>]"
    by (simp add: playlist_def join_ogg join_covers ogg_second_run split_beta Let_def)
  show ?thesis
    by (simp only: 1 2 fst_conv snd_conv) simp
qed

subsection \<open>The cache key of a path\<close>




subsection \<open>The round trip of an ID3 picture\<close>




subsection \<open>The extension of an ID3 picture\<close>

text \<open>
  C6, as the code has it. The extension of an APIC picture follows from the declared MIME
  string by a substring test (line 58): a MIME string that contains \<open>png\<close> gives
  \<open>.png\<close>, any other gives \<open>.jpg\<close>. Every MIME string gets one of the two; none makes
  the extraction fail.
\<close>

theorem apic_extension_by_substring:
  assumes "File e p = Inr (Some (Audio (Some t)))"
    and "is_ID3 t"
    and "map_of (items t) ''covr'' = None"
    and "items t = pre @ (k, APIC m b) # post"
    and "\<forall>m' b'. APIC m' b' \<notin> snd ` set pre"
  shows "select_image t =
       Inr (Some (Bytes b), if \<exists>u v. m = u @ ''png'' @ v then ''.png'' else ''.jpg'') \<and>
     fst (extract_cover e p d w) \<in>
       {None, Some (COVERS_DIR @ ''/'' @ file_hash p @
                 (if \<exists>u v. m = u @ ''png'' @ v then ''.png'' else ''.jpg''))}"
proof -
  let ?ext = "if \<exists>u v. m = u @ ''png'' @ v then ''.png'' else ''.jpg''"
  have x: "(if contains ''png'' m then ''.png'' else ''.jpg'') = ?ext"
    by (simp only: contains_iff)
  have "first_APIC (map snd (items t)) = first_APIC (APIC m b # map snd post)"
    using assms(5) by (simp add: assms(4) first_APIC_skip)
  then have s: "select_image t = Inr (Some (Bytes b), ?ext)"
    using assms(2,3) by (simp add: select_image_def contains_iff)
  have c: "chosen e p = (if b = [] then Inr None else Inr (Some (Bytes b, ?ext)))"
    using chosen_first_APIC [OF assms] by (simp only: x)
  have "fst (extract_cover e p d w) \<in> {None, Some (COVERS_DIR @ ''/'' @ file_hash p @ ?ext)}"
    by (auto simp: extract_cover_def extract_cover_try_chosen c
        split: prod.splits option.splits sum.splits exn.splits)
  with s show ?thesis by blast
qed

theorem apic_extension_by_substring_witness:
  "select_image (id3_tags ''image/x-png'' png_bytes) = Inr (Some (Bytes png_bytes), ''.png'') \<and>
   fst (extract_cover (machine (only ''music/a.mp3'' (id3_tags ''image/x-png'' png_bytes)))
      ''music/a.mp3'' ''music/covers'' fresh)
     \<in> {None, Some (COVERS_DIR @ ''/'' @ file_hash ''music/a.mp3'' @ ''.png'')}"
proof -
  have i: "is_ID3 (id3_tags ''image/x-png'' png_bytes)"
    by (simp add: id3_tags_def)
  have m: "map_of (items (id3_tags ''image/x-png'' png_bytes)) ''covr'' = None"
    by (simp add: id3_tags_def)
  have s: "items (id3_tags ''image/x-png'' png_bytes)
      = [(''TIT2'', Frame)] @ (''APIC:'', APIC ''image/x-png'' png_bytes) # []"
    by (simp add: id3_tags_def)
  have a: "\<forall>m' b'. APIC m' b' \<notin> snd ` set [(''TIT2'', Frame)]"
    by simp
  have "contains ''png'' ''image/x-png''"
    by simp
  then have x: "\<exists>u v. ''image/x-png'' = u @ ''png'' @ v"
    by (simp only: contains_iff)
  show ?thesis
    using apic_extension_by_substring [OF file_only [of "''music/a.mp3''"] i m s a, where d = "''music/covers''" and w = fresh]
    by (simp only: x if_True)
qed

text \<open>
  The claim as stated fails: \<open>image/x-png\<close> is not \<open>image/png\<close>, and is stored as
  \<open>.png\<close>.
\<close>

theorem apic_mime_counterexample:
  "''image/x-png'' \<noteq> ''image/png'' \<and>
   fst (extract_cover (machine (only ''music/a.mp3'' (id3_tags ''image/x-png'' png_bytes)))
      ''music/a.mp3'' ''music/covers'' fresh)
     = Some (''covers/'' @ file_hash ''music/a.mp3'' @ ''.png'')"
  by (simp add: extract_x_png)

subsection \<open>The order of the records\<close>

text \<open>
  C7. The loop produces one record per file of the list it is given, in the order of the
  list: the record at position \<open>i\<close> carries the name of the file at position \<open>i\<close> and
  the cover that \<open>extract_cover\<close> returns for that file, on the disk as the files before
  it left it. The loop itself never sorts (the listing was sorted before, at line 118).
\<close>

theorem playlist_order_preserved:
  "length (fst (playlist e td fs w)) = length fs \<and>
   map name (fst (playlist e td fs w)) = fs \<and>
   (\<forall>i<length fs.
      fst (playlist e td fs w) ! i =
        \<lparr>name = fs ! i, url = fs ! i,
         cover = fst (extract_cover e (join td (fs ! i)) (join td COVERS_DIR)
                   (snd (playlist e td (take i fs) w)))\<rparr>)"
  unfolding playlist_def
  using length_build_playlist names_build_playlist nth_build_playlist by blast

theorem playlist_order_preserved_witness:
  "map name (fst (playlist two_songs ''music'' [''b.mp3'', ''a.mp3''] fresh))
     = [''b.mp3'', ''a.mp3''] \<and>
   fst (playlist two_songs ''music'' [''b.mp3'', ''a.mp3''] fresh) ! 0
     = \<lparr>name = ''b.mp3'', url = ''b.mp3'', cover = None\<rparr> \<and>
   fst (playlist two_songs ''music'' [''b.mp3'', ''a.mp3''] fresh) ! 1
     = \<lparr>name = ''a.mp3'', url = ''a.mp3'',
        cover = Some (''covers/'' @ file_hash ''music/a.mp3'' @ ''.jpg'')\<rparr>"
proof -
  have s0: "snd (playlist two_songs ''music'' [] fresh) = fresh"
    by (simp add: playlist_def)
  have s1: "snd (playlist two_songs ''music'' [''b.mp3''] fresh) = fresh"
    by (simp add: playlist_def join_music two_songs_b)
  have i0: "(0::nat) < length [''b.mp3'', ''a.mp3'']" and i1: "(1::nat) < length [''b.mp3'', ''a.mp3'']"
    by simp_all
  note t = playlist_order_preserved [of two_songs "''music''" "[''b.mp3'', ''a.mp3'']" fresh]
  from t have n: "map name (fst (playlist two_songs ''music'' [''b.mp3'', ''a.mp3''] fresh))
     = [''b.mp3'', ''a.mp3'']" by blast
  from t i0 have r0: "fst (playlist two_songs ''music'' [''b.mp3'', ''a.mp3''] fresh) ! 0
     = \<lparr>name = ''b.mp3'', url = ''b.mp3'', cover = None\<rparr>"
    by (simp add: s0 join_music two_songs_b)
  from t i1 have r1: "fst (playlist two_songs ''music'' [''b.mp3'', ''a.mp3''] fresh) ! 1
     = \<lparr>name = ''a.mp3'', url = ''a.mp3'',
        cover = Some (''covers/'' @ file_hash ''music/a.mp3'' @ ''.jpg'')\<rparr>"
    by (simp add: s1 join_music two_songs_a)
  from n r0 r1 show ?thesis by blast
qed

subsection \<open>The first picture wins\<close>



subsection \<open>No exception leaves extract_cover\<close>



subsection \<open>Name and url of a record\<close>

text \<open>
  C10. In every record \<open>url\<close> and \<open>name\<close> are the entry of the file list as it is: no
  encoding, no directory prefix. For a listing entry, which holds no slash, this is the
  base name of the path that is handed to \<open>extract_cover\<close>.
\<close>

theorem playlist_url_is_name:
  "map name (fst (playlist e td fs w)) = fs \<and>
   map url (fst (playlist e td fs w)) = fs \<and>
   (\<forall>i<length fs. CHR ''/'' \<notin> set (fs ! i) \<longrightarrow>
      name (fst (playlist e td fs w) ! i) = basename (join td (fs ! i)) \<and>
      url (fst (playlist e td fs w) ! i) = basename (join td (fs ! i)))"
proof -
  have n: "map name (fst (playlist e td fs w)) = fs"
    unfolding playlist_def by (rule names_build_playlist)
  have u: "map url (fst (playlist e td fs w)) = fs"
    unfolding playlist_def by (rule urls_build_playlist)
  have l: "length (fst (playlist e td fs w)) = length fs"
    unfolding playlist_def by (rule length_build_playlist)
  have "name (fst (playlist e td fs w) ! i) = basename (join td (fs ! i)) \<and>
      url (fst (playlist e td fs w) ! i) = basename (join td (fs ! i))"
    if "i < length fs" "CHR ''/'' \<notin> set (fs ! i)" for i
  proof -
    have "name (fst (playlist e td fs w) ! i) = map name (fst (playlist e td fs w)) ! i"
      using that(1) l by simp
    moreover have "url (fst (playlist e td fs w) ! i) = map url (fst (playlist e td fs w)) ! i"
      using that(1) l by simp
    ultimately show ?thesis
      using n u basename_join [OF that(2)] by simp
  qed
  with n u show ?thesis by blast
qed

theorem playlist_url_is_name_witness:
  "map url (fst (playlist two_songs ''music'' [''b.mp3'', ''a.mp3''] fresh))
     = [''b.mp3'', ''a.mp3''] \<and>
   url (fst (playlist two_songs ''music'' [''b.mp3'', ''a.mp3''] fresh) ! 1)
     = basename ''music/a.mp3'' \<and>
   name (fst (playlist two_songs ''music'' [''b.mp3'', ''a.mp3''] fresh) ! 1)
     = basename ''music/a.mp3'' \<and>
   basename ''music/a.mp3'' = ''a.mp3''"
proof -
  have i1: "(1::nat) < length [''b.mp3'', ''a.mp3'']"
    by simp
  have sl: "CHR ''/'' \<notin> set ([''b.mp3'', ''a.mp3''] ! 1)"
    by simp
  have b: "basename ''music/a.mp3'' = ''a.mp3''"
    by (simp add: basename_def)
  note t = playlist_url_is_name [of two_songs "''music''" "[''b.mp3'', ''a.mp3'']" fresh]
  from t have u: "map url (fst (playlist two_songs ''music'' [''b.mp3'', ''a.mp3''] fresh))
     = [''b.mp3'', ''a.mp3'']" by blast
  from t i1 sl have "name (fst (playlist two_songs ''music'' [''b.mp3'', ''a.mp3''] fresh) ! 1)
       = basename (join ''music'' ([''b.mp3'', ''a.mp3''] ! 1)) \<and>
     url (fst (playlist two_songs ''music'' [''b.mp3'', ''a.mp3''] fresh) ! 1)
       = basename (join ''music'' ([''b.mp3'', ''a.mp3''] ! 1))"
    by blast
  then show ?thesis
    using u b by (simp add: join_music)
qed

end
